theory Spec2Isabelle
  imports Main
begin

section \<open>The Reconciler: \<open>Patch.get_touched\<close>\<close>

text \<open>
  \<^verbatim>\<open>
  added = set(added)
  deleted = set(deleted)
  touched = set(abs(x) for x in added if (x > 0 and {x, -x} & deleted))
  touched |= set(abs(x) for x in deleted if (x > 0 and {x, -x} & added))
  added = [x for x in added if x > 0 and x not in touched]
  deleted = [x for x in deleted if x > 0 and x not in touched]
  touched = list(sorted(touched)); added = list(sorted(added)); deleted = list(sorted(deleted))
  return added, deleted, touched
  \<close>
  A Python set is a duplicate-free collection iterated in an unspecified order: it is
  modelled by \<open>remdups\<close> of the list. Anchors are Python's unbounded integers.
\<close>

definition get_touched :: "int list \<Rightarrow> int list \<Rightarrow> int list \<times> int list \<times> int list" where
  "get_touched added0 deleted0 =
     (let a_set = remdups added0;
          d_set = remdups deleted0;
          touched0 = remdups
            ([\<bar>x\<bar>. x \<leftarrow> a_set, 0 < x \<and> (x \<in> set d_set \<or> - x \<in> set d_set)] @
             [\<bar>x\<bar>. x \<leftarrow> d_set, 0 < x \<and> (x \<in> set a_set \<or> - x \<in> set a_set)]);
          added1 = [x \<leftarrow> a_set. 0 < x \<and> x \<notin> set touched0];
          deleted1 = [x \<leftarrow> d_set. 0 < x \<and> x \<notin> set touched0]
      in (sort added1, sort deleted1, sort touched0))"

section \<open>Properties of the Reconciler\<close>

lemma sort_distinct_set_cong:
  fixes xs ys :: "int list"
  assumes "distinct xs" "distinct ys" "set xs = set ys"
  shows "sort xs = sort ys"
proof -
  have "set (sort xs) = set (sort ys)" using assms by simp
  then show ?thesis
    by (intro sorted_distinct_set_unique) (use assms in simp_all)
qed

lemma strict_sort_distinct:
  fixes xs :: "int list"
  shows "distinct xs \<Longrightarrow> sorted_wrt (<) (sort xs)"
  by (simp add: strict_sorted_iff)

text \<open>
  Claim C2. The worked example of the Reconciler holds exactly:
  added \<open>[1,2,3,4,-5,-6,-7,8,10]\<close> and deleted \<open>[4,5,6,-7,9,-10]\<close> give
  added \<open>[1,2,3,8]\<close>, deleted \<open>[9]\<close> and touched \<open>[4,5,6,10]\<close>.
\<close>

theorem get_touched_worked_example:
  "get_touched [1, 2, 3, 4, -5, -6, -7, 8, 10] [4, 5, 6, -7, 9, -10]
     = ([1, 2, 3, 8], [9], [4, 5, 6, 10])"
  by (simp add: get_touched_def)

text \<open>
  Claim C3. For all anchor lists (any signed integers, duplicates allowed) the three
  lists returned by the Reconciler are pairwise disjoint and each strictly increasing.
\<close>

theorem get_touched_disjoint_increasing:
  "(case get_touched a d of (a', d', t) \<Rightarrow>
      sorted_wrt (<) a' \<and> sorted_wrt (<) d' \<and> sorted_wrt (<) t \<and>
      set a' \<inter> set d' = {} \<and> set a' \<inter> set t = {} \<and> set d' \<inter> set t = {})"
proof -
  define T where "T = remdups
       ([\<bar>x\<bar>. x \<leftarrow> remdups a, 0 < x \<and> (x \<in> set (remdups d) \<or> - x \<in> set (remdups d))] @
        [\<bar>x\<bar>. x \<leftarrow> remdups d, 0 < x \<and> (x \<in> set (remdups a) \<or> - x \<in> set (remdups a))])"
  define A where "A = [x \<leftarrow> remdups a. 0 < x \<and> x \<notin> set T]"
  define D where "D = [x \<leftarrow> remdups d. 0 < x \<and> x \<notin> set T]"
  have gt: "get_touched a d = (sort A, sort D, sort T)"
    by (simp add: get_touched_def T_def A_def D_def Let_def)
  have dT: "distinct T" by (simp add: T_def)
  have dA: "distinct A" by (simp add: A_def)
  have dD: "distinct D" by (simp add: D_def)
  have AT: "set A \<inter> set T = {}" by (auto simp: A_def)
  have DT: "set D \<inter> set T = {}" by (auto simp: D_def)
  have inT: "x \<in> set T" if "x \<in> set a" "x \<in> set d" "0 < x" for x
  proof -
    have "\<bar>x\<bar> \<in> set T" using that unfolding T_def by force
    with that show ?thesis by simp
  qed
  have AD: "set A \<inter> set D = {}"
  proof (rule ccontr)
    assume "set A \<inter> set D \<noteq> {}"
    then obtain x where xA: "x \<in> set A" and xD: "x \<in> set D" by blast
    from xA have "x \<in> set a" "0 < x" "x \<notin> set T" by (auto simp: A_def)
    moreover from xD have "x \<in> set d" by (auto simp: D_def)
    ultimately show False using inT by blast
  qed
  show ?thesis
    using dT dA dD AT DT AD by (simp add: gt strict_sort_distinct)
qed

text \<open>
  Claim C10. The Reconciler depends only on the sets of its two inputs: lists with the
  same elements (in any order, with any duplication) give the same three results.
\<close>

theorem get_touched_set_cong:
  assumes "set a = set a'" and "set d = set d'"
  shows "get_touched a d = get_touched a' d'"
proof -
  let ?T = "\<lambda>a d. remdups
       ([\<bar>x\<bar>. x \<leftarrow> remdups a, 0 < x \<and> (x \<in> set (remdups d) \<or> - x \<in> set (remdups d))] @
        [\<bar>x\<bar>. x \<leftarrow> remdups d, 0 < x \<and> (x \<in> set (remdups a) \<or> - x \<in> set (remdups a))])"
  have sT: "set (?T a d) = set (?T a' d')"
    using assms by (simp add: set_eq_iff)
  have T: "sort (?T a d) = sort (?T a' d')"
    by (rule sort_distinct_set_cong) (use sT in simp_all)
  have A: "sort [x \<leftarrow> remdups a. 0 < x \<and> x \<notin> set (?T a d)]
         = sort [x \<leftarrow> remdups a'. 0 < x \<and> x \<notin> set (?T a' d')]"
    by (rule sort_distinct_set_cong) (use sT assms in simp_all)
  have D: "sort [x \<leftarrow> remdups d. 0 < x \<and> x \<notin> set (?T a d)]
         = sort [x \<leftarrow> remdups d'. 0 < x \<and> x \<notin> set (?T a' d')]"
    by (rule sort_distinct_set_cong) (use sT assms in simp_all)
  show ?thesis
    unfolding get_touched_def Let_def using T A D by simp
qed

theorem get_touched_set_cong_witness:
  "set [3, -2, 3, 2 :: int] = set [2, 3, -2] \<and> set [2, 2, 5 :: int] = set [5, 2] \<and>
   get_touched [3, -2, 3, 2] [2, 2, 5] = get_touched [2, 3, -2] [5, 2]"
proof -
  have h1: "set [3, -2, 3, 2 :: int] = set [2, 3, -2]" by auto
  have h2: "set [2, 2, 5 :: int] = set [5, 2]" by auto
  show ?thesis by (intro conjI h1 h2 get_touched_set_cong [OF h1 h2])
qed

end
